theory Spec2Isabelle
  imports Main "HOL-Library.AList"
begin

section \<open>message\_history.py: the history tracker\<close>

text \<open>
  Modelled from the spec: the interval type of module \<open>range\<close>, which
  \<open>message_history.py\<close> imports and which is not among the sources. The spec describes an
  interval as \<open>[start, end]\<close> over the event ids, whose minimum is its start and whose
  maximum is its end; \<open>to_ranges\<close> reads the two fields \<open>start\<close> and \<open>end\<close>.
\<close>

record Range =
  range_start :: int
  range_end :: int

definition range_min :: "Range \<Rightarrow> int" where
  "range_min r = range_start r"

definition range_max :: "Range \<Rightarrow> int" where
  "range_max r = range_end r"

text \<open>
  \<open>class MessageHistory(MultiRange)\<close>: the ordered list \<open>self.ranges\<close> and the slot
  \<open>first\<close>, which is \<open>None\<close> unless the constructor is given one.
\<close>

record MessageHistory =
  ranges :: "Range list"
  first :: "int option"

text \<open>
  The loop of \<open>find_first_hole\<close> over \<open>reversed(self.ranges)\<close>: the list argument is
  what is left of the reversed list, \<open>current\<close> the loop variable. The test compares
  the interval's maximum with \<open>start\<close> (not with \<open>current\<close>), and \<open>break\<close> leaves the
  loop with \<open>current\<close> as it stands.
\<close>

fun walk :: "int \<Rightarrow> int \<Rightarrow> Range list \<Rightarrow> int" where
  "walk start current [] = current"
| "walk start current (r # rs) =
     (if start > range_max r then current else walk start (range_min r) rs)"

text \<open>
  \<open>find_first_hole\<close> returns an int or \<open>None\<close>. Python's \<open>or\<close> evaluates
  \<open>self.first < current\<close> only when \<open>self.first\<close> is not \<open>None\<close>.
\<close>

definition find_first_hole :: "MessageHistory \<Rightarrow> int \<Rightarrow> int option" where
  "find_first_hole self start =
     (let current = walk start start (rev (ranges self)) in
      if first self = None \<or> the (first self) < current
      then Some (min start current)
      else None)"

text \<open>\<open>to_ranges\<close>: the starts and the ends, in the order of \<open>self.ranges\<close>.\<close>

definition to_ranges :: "MessageHistory \<Rightarrow> int list \<times> int list" where
  "to_ranges self = (map range_start (ranges self), map range_end (ranges self))"

section \<open>crawler.py: the crawl template\<close>

text \<open>
  An exception of class \<open>Exception\<close> or of a subclass of it: what the two handlers
  \<open>except Exception\<close> catch. \<open>ValueError\<close> is what \<open>max\<close> raises on an empty
  sequence; every other failure (of the remote client, of the store) is an
  \<open>Exception\<close> with its message.
\<close>

datatype error = ValueError | Exception string

text \<open>An event of a source: a message or an audit log entry, an object with an \<open>id\<close>.\<close>

record event =
  event_id :: int
  content :: string

text \<open>
  A work item is the tuple \<open>(source, events, last_id)\<close> the producer puts on the
  queue; \<open>events\<close> is \<open>None\<close> when the read found nothing.
\<close>

type_synonym 'src work_item = "'src \<times> event list option \<times> int"

text \<open>The two delays of the configuration: \<open>yield-delay\<close> and \<open>empty-source-delay\<close>.\<close>

datatype delay = Yield_delay | Empty_source_delay

text \<open>
  What a crawler does besides changing its own state, in the order it does it:
  entering \<open>self.sql.transaction()\<close>, calling the hooks \<open>write\<close> and \<open>update\<close> with
  their arguments, leaving the transaction scope (normally, or by an exception),
  \<open>self.queue.task_done()\<close> and \<open>asyncio.sleep(delay)\<close>.
\<close>

datatype 'src call =
    Transaction
  | Write "event list"
  | Update 'src int
  | Commit
  | Rollback
  | Task_done
  | Sleep delay

text \<open>
  The records the loops and the hooks hand to \<open>self.logger\<close>: the two errors, the
  notice of the long sleep, the consumer's notice of an item, and the four notices of
  the channel hooks. (The notices of \<open>read\<close> and the start-up lines are left out.)
\<close>

datatype 'src log_record =
    Error_reading 'src
  | All_exhausted
  | Got_group
  | Error_during_write
  | Adding 'src
  | Removing 'src
  | Updating_adding 'src
  | Updating_removing 'src

text \<open>
  The slots of \<open>AbstractCrawler\<close> that change. \<open>progress\<close> is the dictionary
  \<open>{source: last_id}\<close> in insertion order; a value is an int or \<open>None\<close>
  (\<open>_create_progress\<close> stores \<open>None\<close>). \<open>queue\<close> holds the items put and not yet
  taken, oldest first: \<open>put\<close> on a full queue only suspends the producer until the
  consumer has taken an item, so the bound of the queue changes when an item is put and
  never which items are put. \<open>sql\<close> is what the store holds, \<open>calls\<close> and \<open>logger\<close>
  grow at the end.
\<close>

record ('src, 'db) crawler =
  progress :: "('src \<times> int option) list"
  queue :: "'src work_item list"
  sql :: 'db
  logger :: "'src log_record list"
  calls :: "'src call list"

text \<open>
  \<open>get_last_id\<close>: \<open>max(map(lambda x: x.id, objects))\<close>. Python's \<open>max\<close> raises
  \<open>ValueError\<close> on an empty sequence.
\<close>

definition get_last_id :: "event list \<Rightarrow> error + int" where
  "get_last_id objects =
     (case map event_id objects of
        [] \<Rightarrow> Inl ValueError
      | i # ids \<Rightarrow> Inr (fold max ids i))"

text \<open>
  The body of the producer's \<open>for source, last_id in tuple(self.progress.items())\<close>,
  with the flag \<open>done\<close> beside the crawler. \<open>read\<close> is the hook: it raises, returns
  \<open>None\<close> or returns the events. \<open>NOW_ID\<close> is the module's constant, computed once when
  the module is imported. Whatever is raised inside the \<open>try\<close> (by \<open>read\<close> or by
  \<open>get_last_id\<close>) is logged, and the loop goes on. \<open>self.progress[source] = v\<close>
  replaces the value of a key that is there and appends a key that is not.
\<close>

definition producer_source ::
  "('src \<Rightarrow> int option \<Rightarrow> error + event list option) \<Rightarrow> int \<Rightarrow>
   'src \<times> int option \<Rightarrow> bool \<times> ('src, 'db) crawler \<Rightarrow> bool \<times> ('src, 'db) crawler" where
  "producer_source read NOW_ID = (\<lambda>(source, last_id) (done, c).
     case read source last_id of
       Inl e \<Rightarrow> (done, c\<lparr>logger := logger c @ [Error_reading source]\<rparr>)
     | Inr None \<Rightarrow>
         (True, c\<lparr>queue := queue c @ [(source, None, NOW_ID)],
                  progress := AList.update source (Some NOW_ID) (progress c)\<rparr>)
     | Inr (Some events) \<Rightarrow>
         (case get_last_id events of
            Inl e \<Rightarrow> (done, c\<lparr>logger := logger c @ [Error_reading source]\<rparr>)
          | Inr last_id' \<Rightarrow>
              (done, c\<lparr>queue := queue c @ [(source, Some events, last_id')],
                       progress := AList.update source (Some last_id') (progress c)\<rparr>)))"

text \<open>
  One round of the producer's \<open>while True\<close>: \<open>done = False\<close>, the loop over the
  snapshot of the dictionary, then the choice of the delay and the sleep.
\<close>

definition producer_round ::
  "('src \<Rightarrow> int option \<Rightarrow> error + event list option) \<Rightarrow> int \<Rightarrow>
   ('src, 'db) crawler \<Rightarrow> ('src, 'db) crawler" where
  "producer_round read NOW_ID c =
     (case fold (producer_source read NOW_ID) (progress c) (False, c) of
        (done, c') \<Rightarrow>
          if done
          then c'\<lparr>logger := logger c' @ [All_exhausted],
                  calls := calls c' @ [Sleep Empty_source_delay]\<rparr>
          else c'\<lparr>calls := calls c' @ [Sleep Yield_delay]\<rparr>)"

text \<open>
  The producer never returns; its first rounds are what can be observed. Within a round
  every source is read once, so a round is given by the function that answers its reads;
  the remote service changes between rounds, so every round has a function of its own.
\<close>

definition producer ::
  "('src \<Rightarrow> int option \<Rightarrow> error + event list option) list \<Rightarrow> int \<Rightarrow>
   ('src, 'db) crawler \<Rightarrow> ('src, 'db) crawler" where
  "producer reads NOW_ID c = fold (\<lambda>read. producer_round read NOW_ID) reads c"

text \<open>
  One turn of the consumer's \<open>while True\<close>, for the item \<open>self.queue.get()\<close> returned.
  The hooks \<open>write\<close> and \<open>update\<close> work on the transaction they are given: a hook
  returns the transaction as it leaves it (\<open>Inr\<close>), or raises, having left the
  transaction in some state (\<open>Inl\<close>).

  Modelled from the spec: the scope \<open>with self.sql.transaction() as trans\<close> of the
  store handler, which is not among the sources. It starts from what the store holds;
  left normally, it commits what the hooks did; left by an exception, it is abandoned
  and the store holds what it held before.
\<close>

definition consumer_item ::
  "('db \<Rightarrow> event list \<Rightarrow> error \<times> 'db + 'db) \<Rightarrow> ('db \<Rightarrow> 'src \<Rightarrow> int \<Rightarrow> error \<times> 'db + 'db) \<Rightarrow>
   'src work_item \<Rightarrow> ('src, 'db) crawler \<Rightarrow> ('src, 'db) crawler" where
  "consumer_item write update = (\<lambda>(source, events, last_id) c0.
     let c1 = c0\<lparr>logger := logger c0 @ [Got_group]\<rparr>;
         c2 = c1\<lparr>calls := calls c1 @ [Transaction]\<rparr>;
         tr = sql c2;
         (c3, written) =
           (case events of
              None \<Rightarrow> (c2, Inr tr)
            | Some evs \<Rightarrow> (c2\<lparr>calls := calls c2 @ [Write evs]\<rparr>, write tr evs));
         (c4, updated) =
           (case written of
              Inl raised \<Rightarrow> (c3, Inl raised)
            | Inr tr' \<Rightarrow>
                (c3\<lparr>calls := calls c3 @ [Update source last_id]\<rparr>, update tr' source last_id));
         c5 =
           (case updated of
              Inr tr'' \<Rightarrow> c4\<lparr>calls := calls c4 @ [Commit], sql := tr''\<rparr>
            | Inl raised \<Rightarrow>
                c4\<lparr>calls := calls c4 @ [Rollback], logger := logger c4 @ [Error_during_write]\<rparr>)
     in c5\<lparr>calls := calls c5 @ [Task_done]\<rparr>)"

text \<open>
  The consumer's loop, over the items the queue holds: \<open>get\<close> takes the oldest item off
  the queue, and suspends the consumer when the queue is empty.
\<close>

fun consumer_loop ::
  "('db \<Rightarrow> event list \<Rightarrow> error \<times> 'db + 'db) \<Rightarrow> ('db \<Rightarrow> 'src \<Rightarrow> int \<Rightarrow> error \<times> 'db + 'db) \<Rightarrow>
   'src work_item list \<Rightarrow> ('src, 'db) crawler \<Rightarrow> ('src, 'db) crawler" where
  "consumer_loop write update [] c = c"
| "consumer_loop write update (item # rest) c =
     consumer_loop write update rest (consumer_item write update item (c\<lparr>queue := rest\<rparr>))"

definition consumer ::
  "('db \<Rightarrow> event list \<Rightarrow> error \<times> 'db + 'db) \<Rightarrow> ('db \<Rightarrow> 'src \<Rightarrow> int \<Rightarrow> error \<times> 'db + 'db) \<Rightarrow>
   ('src, 'db) crawler \<Rightarrow> ('src, 'db) crawler" where
  "consumer write update c = consumer_loop write update (queue c) c"

text \<open>
  A crawler as the producer finds it after \<open>init\<close>: the dictionary seeded, the queue
  empty, nothing logged or called yet.
\<close>

definition started :: "('src \<times> int option) list \<Rightarrow> 'db \<Rightarrow> ('src, 'db) crawler" where
  "started seeded db = \<lparr>progress = seeded, queue = [], sql = db, logger = [], calls = []\<rparr>"

text \<open>
  The cursors of the items a queue holds for one source, oldest first, and the cursors
  the store was given for one source in the transactions that committed, in the order
  of the commits. The second is read off the calls: \<open>scope\<close> collects the cursors
  \<open>update\<close> was called with since the transaction was entered, \<open>Commit\<close> keeps them
  and \<open>Rollback\<close> drops them.
\<close>

definition enqueued :: "'src \<Rightarrow> 'src work_item list \<Rightarrow> int list" where
  "enqueued source items = map (\<lambda>item. snd (snd item)) (filter (\<lambda>item. fst item = source) items)"

fun committed :: "'src \<Rightarrow> 'src call \<Rightarrow> int list \<times> int list \<Rightarrow> int list \<times> int list" where
  "committed source Transaction (scope, kept) = ([], kept)"
| "committed source (Update s last_id) (scope, kept) =
     (if s = source then (scope @ [last_id], kept) else (scope, kept))"
| "committed source Commit (scope, kept) = ([], kept @ scope)"
| "committed source Rollback (scope, kept) = ([], kept)"
| "committed source (Write evs) (scope, kept) = (scope, kept)"
| "committed source Task_done (scope, kept) = (scope, kept)"
| "committed source (Sleep d) (scope, kept) = (scope, kept)"

definition persisted :: "'src \<Rightarrow> 'src call list \<Rightarrow> int list" where
  "persisted source cs = snd (fold (committed source) cs ([], []))"

text \<open>
  What the rounds of the producer keep true of one source, as long as no event id exceeds
  \<open>NOW_ID\<close>: the dictionary has distinct keys and holds for the source a cursor
  between \<open>low\<close> and \<open>NOW_ID\<close>, and the cursors queued for the source are in
  ascending order, between \<open>low\<close> and the cursor of the dictionary.
\<close>

definition cursor_inv :: "int \<Rightarrow> int \<Rightarrow> 'src \<Rightarrow> ('src, 'db) crawler \<Rightarrow> bool" where
  "cursor_inv NOW_ID low source c =
     (distinct (map fst (progress c)) \<and>
      (\<exists>n. map_of (progress c) source = Some (Some n) \<and> low \<le> n \<and> n \<le> NOW_ID
           \<and> sorted (enqueued source (queue c))
           \<and> (\<forall>l\<in>set (enqueued source (queue c)). low \<le> l \<and> l \<le> n)))"

section \<open>crawler.py: the history crawler and the audit log crawler\<close>

text \<open>
  What the hooks read of a channel: its id, the id of its guild, and whether
  \<open>channel.permissions_for(channel.guild.me).read_message_history\<close> holds.
\<close>

record channel =
  chan_id :: int
  guild_id :: int
  read_message_history :: bool

text \<open>
  A key of the dictionary \<open>progress\<close> of the history crawler. The client library
  compares and hashes a channel by its id (the spec: equality and hash by remote
  identity), so two objects for one channel are one key; an int is a key of its own kind
  and equal to no channel.
\<close>

datatype key = Channel_key int | Int_key int

text \<open>
  A call on \<open>self.sql\<close>, as the source writes it: the name of the method and the
  arguments passed, in order. \<open>Trans\<close> is the handle \<open>trans\<close> of the transaction scope
  the call stands in. The store handler is not among the sources; for the hooks below the
  store is the list of the calls it received.
\<close>

datatype 'o arg = Trans | Source 'o | Event event | Number int

type_synonym 'o sql_call = "string \<times> 'o arg list"

text \<open>\<open>_channel_ok\<close>, for the tracked guilds \<open>self.config['guilds']\<close>.\<close>

definition channel_ok :: "int list \<Rightarrow> channel \<Rightarrow> bool" where
  "channel_ok guilds channel =
     (if guild_id channel \<in> set guilds then read_message_history channel else False)"

text \<open>
  The body of the loops of \<open>HistoryCrawler.init\<close> for one text channel of a tracked
  guild. \<open>lookup\<close> is what \<open>lookup_channel_crawl\<close> answers for the channel: the cursor
  the store has, or \<open>None\<close>. \<open>last_id or 0\<close> is \<open>0\<close> when \<open>last_id\<close> is \<open>None\<close> or
  \<open>0\<close>.
\<close>

definition init_channel ::
  "(key \<Rightarrow> int option) \<Rightarrow> channel \<Rightarrow> (key, key sql_call list) crawler \<Rightarrow>
   (key, key sql_call list) crawler" where
  "init_channel lookup channel c =
     (if read_message_history channel
      then
        let last_id = lookup (Channel_key (chan_id channel));
            c' = (if last_id = None
                  then c\<lparr>sql := sql c @ [(''insert_channel_crawl'',
                          [Trans, Source (Channel_key (chan_id channel)), Number 0])]\<rparr>
                  else c)
        in c'\<lparr>progress := AList.update (Channel_key (chan_id channel))
                 (Some (case last_id of None \<Rightarrow> 0 | Some l \<Rightarrow> l)) (progress c')\<rparr>
      else c)"

text \<open>
  \<open>HistoryCrawler.read\<close> and \<open>AuditLogCrawler.read\<close>. \<open>history channel last_id\<close>
  stands for the remote call
  \<open>channel.history(after=snowflake_time(last_id), limit=batch-size).flatten()\<close>, and
  \<open>audit_logs\<close> for the same call on a guild: each raises or returns a list. An empty list
  is falsy, so the hooks return \<open>None\<close> for it.
\<close>

definition HistoryCrawler_read ::
  "('src \<Rightarrow> int option \<Rightarrow> error + event list) \<Rightarrow> 'src \<Rightarrow> int option \<Rightarrow> error + event list option" where
  "HistoryCrawler_read history channel last_id =
     (case history channel last_id of
        Inl e \<Rightarrow> Inl e
      | Inr messages \<Rightarrow> if messages \<noteq> [] then Inr (Some messages) else Inr None)"

definition AuditLogCrawler_read ::
  "('src \<Rightarrow> int option \<Rightarrow> error + event list) \<Rightarrow> 'src \<Rightarrow> int option \<Rightarrow> error + event list option" where
  "AuditLogCrawler_read audit_logs guild last_id =
     (case audit_logs guild last_id of
        Inl e \<Rightarrow> Inl e
      | Inr entries \<Rightarrow> if entries \<noteq> [] then Inr (Some entries) else Inr None)"

text \<open>
  \<open>_create_progress\<close> and \<open>_delete_progress\<close>: the assignment to the dictionary, then
  one call on the store inside a transaction scope of its own.
\<close>

definition create_progress ::
  "channel \<Rightarrow> (key, key sql_call list) crawler \<Rightarrow> (key, key sql_call list) crawler" where
  "create_progress channel c =
     c\<lparr>progress := AList.update (Channel_key (chan_id channel)) None (progress c),
       calls := calls c @ [Transaction, Commit],
       sql := sql c @ [(''insert_channel_crawl'',
                [Trans, Source (Channel_key (chan_id channel)), Number 0])]\<rparr>"

definition delete_progress ::
  "channel \<Rightarrow> (key, key sql_call list) crawler \<Rightarrow> (key, key sql_call list) crawler" where
  "delete_progress channel c =
     c\<lparr>progress := AList.delete (Channel_key (chan_id channel)) (progress c),
       calls := calls c @ [Transaction, Commit],
       sql := sql c @ [(''delete_channel_crawl'',
                [Trans, Source (Channel_key (chan_id channel))])]\<rparr>"

text \<open>
  The three hooks. \<open>channel in self.progress\<close> looks the channel up;
  \<open>after.id in self.progress\<close> looks an int up.
\<close>

definition channel_create_hook ::
  "int list \<Rightarrow> channel \<Rightarrow> (key, key sql_call list) crawler \<Rightarrow> (key, key sql_call list) crawler" where
  "channel_create_hook guilds channel c =
     (if \<not> channel_ok guilds channel \<or> Channel_key (chan_id channel) \<in> set (map fst (progress c))
      then c
      else create_progress channel
             (c\<lparr>logger := logger c @ [Adding (Channel_key (chan_id channel))]\<rparr>))"

definition channel_delete_hook ::
  "channel \<Rightarrow> (key, key sql_call list) crawler \<Rightarrow> (key, key sql_call list) crawler" where
  "channel_delete_hook channel c =
     delete_progress channel
       (c\<lparr>logger := logger c @ [Removing (Channel_key (chan_id channel))]\<rparr>)"

definition channel_update_hook ::
  "int list \<Rightarrow> channel \<Rightarrow> channel \<Rightarrow> (key, key sql_call list) crawler \<Rightarrow>
   (key, key sql_call list) crawler" where
  "channel_update_hook guilds before_ch after_ch c =
     (if \<not> channel_ok guilds before_ch then c
      else if channel_ok guilds after_ch
      then
        if Int_key (chan_id after_ch) \<in> set (map fst (progress c)) then c
        else create_progress after_ch
               (c\<lparr>logger := logger c @ [Updating_adding (Channel_key (chan_id after_ch))]\<rparr>)
      else delete_progress after_ch
             (c\<lparr>logger := logger c @ [Updating_removing (Channel_key (chan_id after_ch))]\<rparr>))"

text \<open>
  The calls \<open>AuditLogCrawler.write\<close> and \<open>AuditLogCrawler.update\<close> make on the store
  for the transaction \<open>trans\<close> they are given: \<open>write\<close> calls
  \<open>insert_audit_log_entry(entry)\<close> for every entry, \<open>update\<close> calls
  \<open>update_audit_log_crawl(trans, guild, last_id)\<close>.
\<close>

definition AuditLogCrawler_write :: "event list \<Rightarrow> 'g sql_call list" where
  "AuditLogCrawler_write entries = map (\<lambda>entry. (''insert_audit_log_entry'', [Event entry])) entries"

definition AuditLogCrawler_update :: "'g \<Rightarrow> int \<Rightarrow> 'g sql_call list" where
  "AuditLogCrawler_update guild last_id =
     [(''update_audit_log_crawl'', [Trans, Source guild, Number last_id])]"

section \<open>Example inputs\<close>

text \<open>
  A round over two sources: the read of \<open>A\<close> finds nothing, the read of every other
  source returns one event with id \<open>5\<close>.
\<close>

definition one_exhausted :: "string \<Rightarrow> int option \<Rightarrow> error + event list option" where
  "one_exhausted source last_id =
     (if source = ''A'' then Inr None
      else Inr (Some [\<lparr>event_id = 5, content = ''hello''\<rparr>]))"

text \<open>
  A round over three sources: the read of \<open>B\<close> raises, the read of \<open>A\<close> finds nothing,
  the read of every other source returns one event with id \<open>9\<close>.
\<close>

definition one_failing :: "string \<Rightarrow> int option \<Rightarrow> error + event list option" where
  "one_failing source last_id =
     (if source = ''B'' then Inl (Exception ''connection reset'')
      else if source = ''A'' then Inr None
      else Inr (Some [\<lparr>event_id = 9, content = ''hello''\<rparr>]))"

text \<open>A read hook that answers an empty list, where the two crawlers answer \<open>None\<close>.\<close>

definition empty_page :: "string \<Rightarrow> int option \<Rightarrow> error + event list option" where
  "empty_page source last_id = Inr (Some [])"

text \<open>
  A source with one event, of id \<open>150\<close>: a read after a cursor below \<open>150\<close> returns
  it, a read after any other cursor finds nothing.
\<close>

definition one_late_event :: "string \<Rightarrow> int option \<Rightarrow> error + event list option" where
  "one_late_event source last_id =
     (case last_id of
        None \<Rightarrow> Inr None
      | Some cur \<Rightarrow>
          if cur < 150 then Inr (Some [\<lparr>event_id = 150, content = ''late''\<rparr>]) else Inr None)"

text \<open>
  A source with one event, of id \<open>50\<close>: a read after a cursor below \<open>50\<close> returns it,
  a read after any other cursor finds nothing.
\<close>

definition one_early_event :: "string \<Rightarrow> int option \<Rightarrow> error + event list option" where
  "one_early_event source last_id =
     (case last_id of
        None \<Rightarrow> Inr None
      | Some cur \<Rightarrow>
          if cur < 50 then Inr (Some [\<lparr>event_id = 50, content = ''early''\<rparr>]) else Inr None)"

text \<open>
  Hooks of a store that is a table of cursors: \<open>write\<close> accepts every page, or fails
  having changed the transaction; \<open>update\<close> sets the cursor of the source.
\<close>

definition accept_write :: "('src \<times> int) list \<Rightarrow> event list \<Rightarrow> error \<times> ('src \<times> int) list + ('src \<times> int) list" where
  "accept_write tr evs = Inr tr"

definition failing_write :: "('src \<times> int) list \<Rightarrow> event list \<Rightarrow> error \<times> ('src \<times> int) list + ('src \<times> int) list" where
  "failing_write tr evs = Inl (Exception ''disk full'', [])"

definition set_cursor :: "('src \<times> int) list \<Rightarrow> 'src \<Rightarrow> int \<Rightarrow> error \<times> ('src \<times> int) list + ('src \<times> int) list" where
  "set_cursor tr source last_id = Inr (AList.update source last_id tr)"

section \<open>Properties of the history tracker\<close>

text \<open>
  C3, as the spec states it: whenever the origin marker \<open>first\<close> is \<open>None\<close>,
  \<open>find_first_hole\<close> answers \<open>None\<close>. The code does the opposite: the guard
  \<open>self.first is None or ...\<close> sends an unset origin to the branch that returns
  \<open>min(start, current)\<close>. For the intervals \<open>[[10, 20]]\<close> with no origin,
  \<open>find_first_hole(10)\<close> is \<open>10\<close>, not \<open>None\<close>.
\<close>

theorem find_first_hole_unset_origin_counterexample:
  "find_first_hole \<lparr>ranges = [\<lparr>range_start = 10, range_end = 20\<rparr>], first = None\<rparr> 10 = Some 10
   \<and> find_first_hole \<lparr>ranges = [\<lparr>range_start = 10, range_end = 20\<rparr>], first = None\<rparr> 10 \<noteq> None"
  by (simp add: find_first_hole_def range_min_def range_max_def)

text \<open>
  C3, amended: when the origin marker \<open>first\<close> is \<open>None\<close>, \<open>find_first_hole(start)\<close>
  never answers \<open>None\<close>; for every interval list and every \<open>start\<close> it returns
  \<open>min(start, current)\<close>, where \<open>current\<close> is the boundary the backward walk ends with.
\<close>

theorem find_first_hole_unset_origin:
  "first self = None \<Longrightarrow>
   find_first_hole self start = Some (min start (walk start start (rev (ranges self))))"
  by (simp add: find_first_hole_def)

theorem find_first_hole_unset_origin_witness:
  "first \<lparr>ranges = [\<lparr>range_start = 10, range_end = 20\<rparr>], first = None\<rparr> = None
   \<and> find_first_hole \<lparr>ranges = [\<lparr>range_start = 10, range_end = 20\<rparr>], first = None\<rparr> 30 = Some 30"
  using find_first_hole_unset_origin
    [of "\<lparr>ranges = [\<lparr>range_start = 10, range_end = 20\<rparr>], first = None\<rparr>" 30]
  by (simp add: range_min_def range_max_def)

text \<open>
  C8: the two literal examples of the spec. For the intervals \<open>[[10, 20]]\<close> with
  \<open>first = 0\<close>, \<open>find_first_hole(10)\<close> returns \<open>10\<close>: the walk reaches the interval,
  the boundary becomes its minimum \<open>10\<close>, and \<open>0 < 10\<close>, so the result is
  \<open>min(10, 10)\<close>, the boundary reached and not \<open>first\<close>. For no intervals at all with
  \<open>first = 5\<close>, \<open>find_first_hole(100)\<close> returns \<open>100\<close>. Whenever the function
  returns a value at all, the value is \<open>min(start, current)\<close> for the boundary
  \<open>current\<close> the walk ends with.
\<close>

theorem find_first_hole_examples:
  "find_first_hole \<lparr>ranges = [\<lparr>range_start = 10, range_end = 20\<rparr>], first = Some 0\<rparr> 10 = Some 10
   \<and> find_first_hole \<lparr>ranges = [], first = Some 5\<rparr> 100 = Some 100
   \<and> (find_first_hole self start = None
        \<or> find_first_hole self start = Some (min start (walk start start (rev (ranges self)))))"
  by (simp add: find_first_hole_def range_min_def range_max_def Let_def)

section \<open>Properties of the consumer\<close>

lemma consumer_item_calls:
  "calls (consumer_item write update (source, events, last_id) c) =
     calls c @ [Transaction]
       @ (case events of None \<Rightarrow> [] | Some evs \<Rightarrow> [Write evs])
       @ (case (case events of None \<Rightarrow> Inr (sql c) | Some evs \<Rightarrow> write (sql c) evs) of
            Inl raised \<Rightarrow> [Rollback]
          | Inr tr \<Rightarrow>
              (case update tr source last_id of
                 Inl raised \<Rightarrow> [Update source last_id, Rollback]
               | Inr tr' \<Rightarrow> [Update source last_id, Commit]))
       @ [Task_done]"
  by (simp add: consumer_item_def Let_def split: option.splits sum.splits prod.splits)

lemma consumer_item_sql:
  "sql (consumer_item write update (source, events, last_id) c) =
       (case (case events of None \<Rightarrow> Inr (sql c) | Some evs \<Rightarrow> write (sql c) evs) of
          Inl raised \<Rightarrow> sql c
        | Inr tr \<Rightarrow>
            (case update tr source last_id of
               Inl raised \<Rightarrow> sql c
             | Inr tr' \<Rightarrow> tr'))"
  by (simp add: consumer_item_def Let_def split: option.splits sum.splits prod.splits)

lemma consumer_item_queue:
  "queue (consumer_item write update item c) = queue c"
  by (cases item) (simp add: consumer_item_def Let_def split: option.splits sum.splits prod.splits)

lemma consumer_item_count:
  "count_list (calls (consumer_item write update item c)) Task_done
     = Suc (count_list (calls c) Task_done)
   \<and> count_list (calls (consumer_item write update item c)) Transaction
     = Suc (count_list (calls c) Transaction)"
  by (cases item) (simp add: consumer_item_calls split: option.splits sum.splits)

lemma consumer_loop_count:
  "count_list (calls (consumer_loop write update items c)) Task_done
     = count_list (calls c) Task_done + length items
   \<and> count_list (calls (consumer_loop write update items c)) Transaction
     = count_list (calls c) Transaction + length items"
  by (induction items arbitrary: c) (simp_all add: consumer_item_count)

lemma consumer_loop_queue:
  "queue (consumer_loop write update items c) = (if items = [] then queue c else [])"
  by (induction items arbitrary: c) (simp_all add: consumer_item_queue)

lemma consumer_item_last:
  "last (calls (consumer_item write update item c)) = Task_done"
  by (cases item) (simp add: consumer_item_calls)

text \<open>
  C1: for every item the consumer takes off the queue, whatever the hooks do, the calls
  of the turn are: one transaction scope entered; inside it \<open>write\<close>, with the item's
  events, exactly when the item has events; then, unless \<open>write\<close> raised, \<open>update\<close>
  with the item's source and the cursor it carries; then the scope is left, committed
  when nothing was raised and abandoned otherwise; and no hook is called a second time.
  The store afterwards holds what \<open>update\<close> returned on top of what \<open>write\<close> returned
  when neither raised, and exactly what it held before in every other case, whatever
  state a raising hook left the transaction in: both land or neither does. The loop then
  goes on with the rest of the queue, and every item of the queue gets a scope of its
  own.
\<close>

theorem consumer_transaction_atomic:
  "calls (consumer_item write update (source, events, last_id) c) =
     calls c @ [Transaction]
       @ (case events of None \<Rightarrow> [] | Some evs \<Rightarrow> [Write evs])
       @ (case (case events of None \<Rightarrow> Inr (sql c) | Some evs \<Rightarrow> write (sql c) evs) of
            Inl raised \<Rightarrow> [Rollback]
          | Inr tr \<Rightarrow>
              (case update tr source last_id of
                 Inl raised \<Rightarrow> [Update source last_id, Rollback]
               | Inr tr' \<Rightarrow> [Update source last_id, Commit]))
       @ [Task_done]
   \<and> sql (consumer_item write update (source, events, last_id) c) =
       (case (case events of None \<Rightarrow> Inr (sql c) | Some evs \<Rightarrow> write (sql c) evs) of
          Inl raised \<Rightarrow> sql c
        | Inr tr \<Rightarrow>
            (case update tr source last_id of
               Inl raised \<Rightarrow> sql c
             | Inr tr' \<Rightarrow> tr'))
   \<and> consumer_loop write update ((source, events, last_id) # rest) c =
       consumer_loop write update rest
         (consumer_item write update (source, events, last_id) (c\<lparr>queue := rest\<rparr>))
   \<and> count_list (calls (consumer write update c)) Transaction
       = count_list (calls c) Transaction + length (queue c)"
  by (simp add: consumer_item_calls consumer_item_sql consumer_loop_count consumer_def)

text \<open>
  C10: for every item taken off the queue the consumer calls \<open>task_done\<close> exactly once,
  as the last call of the turn, whether or not \<open>write\<close> or \<open>update\<close> raised (the hooks
  are arbitrary here); running the consumer over a queue calls it once per item and
  leaves the queue empty.
\<close>

theorem consumer_task_done_once:
  "count_list (calls (consumer_item write update item c)) Task_done
     = Suc (count_list (calls c) Task_done)
   \<and> last (calls (consumer_item write update item c)) = Task_done
   \<and> count_list (calls (consumer write update c)) Task_done
     = count_list (calls c) Task_done + length (queue c)
   \<and> queue (consumer write update c) = []"
  by (simp add: consumer_item_count consumer_item_last consumer_loop_count consumer_loop_queue
      consumer_def)

text \<open>
  An item whose \<open>write\<close> raises after it has emptied the transaction: the store keeps
  the cursor it had, \<open>update\<close> is not called, and \<open>task_done\<close> is.
\<close>

lemma consumer_failing_write_example:
  "consumer failing_write set_cursor
     \<lparr>progress = [(''A'', Some 9)],
      queue = [(''A'', Some [\<lparr>event_id = 9, content = ''hello''\<rparr>], 9)],
      sql = [(''A'', 0)], logger = [], calls = []\<rparr>
   = \<lparr>progress = [(''A'', Some 9)], queue = [], sql = [(''A'', 0)],
      logger = [Got_group, Error_during_write],
      calls = [Transaction, Write [\<lparr>event_id = 9, content = ''hello''\<rparr>], Rollback, Task_done]\<rparr>"
  by (simp add: consumer_def consumer_item_def failing_write_def)

section \<open>Properties of the producer\<close>

lemma get_last_id_Max:
  "objects \<noteq> [] \<Longrightarrow> get_last_id objects = Inr (Max (event_id ` set objects))"
  by (cases objects) (simp_all add: get_last_id_def Max.set_eq_fold [symmetric])

lemma get_last_id_Inr:
  assumes "get_last_id objects = Inr m"
  shows "m \<in> event_id ` set objects \<and> (\<forall>x\<in>set objects. event_id x \<le> m)"
proof -
  from assms have ne: "objects \<noteq> []" by (auto simp: get_last_id_def)
  with assms have m: "m = Max (event_id ` set objects)" by (simp add: get_last_id_Max)
  have "Max (event_id ` set objects) \<in> event_id ` set objects"
    using ne by (intro Max_in) auto
  then show ?thesis by (simp add: m)
qed

lemma producer_source_raises:
  "read source last_id = Inl e \<Longrightarrow>
   producer_source read NOW_ID (source, last_id) (flag, c)
     = (flag, c\<lparr>logger := logger c @ [Error_reading source]\<rparr>)"
  by (simp add: producer_source_def)

lemma producer_source_other:
  assumes "s \<noteq> source"
  shows "map_of (progress (snd (producer_source read NOW_ID (s, l) dc))) source
           = map_of (progress (snd dc)) source
       \<and> filter (\<lambda>item. fst item = source) (queue (snd (producer_source read NOW_ID (s, l) dc)))
           = filter (\<lambda>item. fst item = source) (queue (snd dc))"
  using assms
  by (cases dc) (simp add: producer_source_def update_conv' split: sum.splits option.splits)

lemma fold_producer_source_other:
  "source \<notin> fst ` set ps \<Longrightarrow>
   map_of (progress (snd (fold (producer_source read NOW_ID) ps dc))) source
       = map_of (progress (snd dc)) source
   \<and> filter (\<lambda>item. fst item = source) (queue (snd (fold (producer_source read NOW_ID) ps dc)))
       = filter (\<lambda>item. fst item = source) (queue (snd dc))"
proof (induction ps arbitrary: dc)
  case Nil
  then show ?case by simp
next
  case (Cons p ps)
  obtain s l where p: "p = (s, l)" by (cases p)
  from Cons.prems have ne: "s \<noteq> source" and rest: "source \<notin> fst ` set ps"
    by (auto simp: p)
  show ?case
    using Cons.IH [OF rest, of "producer_source read NOW_ID (s, l) dc"]
      producer_source_other [OF ne, of read NOW_ID l dc]
    by (simp add: p)
qed

lemma producer_source_calls:
  "calls (snd (producer_source read NOW_ID p dc)) = calls (snd dc)"
  by (cases p; cases dc) (simp add: producer_source_def split: sum.splits option.splits)

lemma fold_producer_source_calls:
  "calls (snd (fold (producer_source read NOW_ID) ps dc)) = calls (snd dc)"
  by (induction ps arbitrary: dc) (simp_all add: producer_source_calls)

lemma producer_round_progress:
  "progress (producer_round read NOW_ID c)
     = progress (snd (fold (producer_source read NOW_ID) (progress c) (False, c)))"
  by (simp add: producer_round_def split: prod.splits)

lemma producer_round_queue:
  "queue (producer_round read NOW_ID c)
     = queue (snd (fold (producer_source read NOW_ID) (progress c) (False, c)))"
  by (simp add: producer_round_def split: prod.splits)

lemma producer_round_calls:
  "\<exists>d. calls (producer_round read NOW_ID c) = calls c @ [Sleep d]"
  using fold_producer_source_calls [of read NOW_ID "progress c" "(False, c)"]
  by (auto simp: producer_round_def split: prod.splits)

text \<open>
  C4, on the code: in a round over the sources \<open>A\<close> and \<open>B\<close> where the read of \<open>A\<close>
  finds nothing and the read of \<open>B\<close> returns an event, the producer queues the event
  of \<open>B\<close> and still sleeps the long empty-source delay: one exhausted source is enough
  to set \<open>done\<close>.
\<close>

theorem producer_round_one_exhausted_long_delay:
  "calls (producer_round one_exhausted 100 (started [(''A'', Some 0), (''B'', Some 0)] ()))
     = [Sleep Empty_source_delay]
   \<and> queue (producer_round one_exhausted 100 (started [(''A'', Some 0), (''B'', Some 0)] ()))
     = [(''A'', None, 100), (''B'', Some [\<lparr>event_id = 5, content = ''hello''\<rparr>], 5)]
   \<and> logger (producer_round one_exhausted 100 (started [(''A'', Some 0), (''B'', Some 0)] ()))
     = [All_exhausted]"
  by (simp add: producer_round_def producer_source_def one_exhausted_def started_def
      get_last_id_def)

text \<open>
  C7: when \<open>read\<close> raises for one source of the round's snapshot (a dictionary's
  snapshot, so its keys are distinct), the loop over the snapshot does for that source
  nothing but log the error and then goes on with the sources after it; at the end of the
  round the source still has the cursor it had, the queue holds for it exactly the items
  it held before, and the round ends with its sleep, after which the next round starts.
\<close>

theorem producer_read_error_contained:
  assumes raises: "read source last_id = Inl e"
    and snapshot: "progress c = pre @ (source, last_id) # post"
    and keys: "distinct (map fst (progress c))"
  shows "fold (producer_source read NOW_ID) (progress c) (False, c)
           = fold (producer_source read NOW_ID) post
               (case fold (producer_source read NOW_ID) pre (False, c) of
                  (flag, c') \<Rightarrow> (flag, c'\<lparr>logger := logger c' @ [Error_reading source]\<rparr>))
       \<and> map_of (progress (producer_round read NOW_ID c)) source = Some last_id
       \<and> filter (\<lambda>item. fst item = source) (queue (producer_round read NOW_ID c))
           = filter (\<lambda>item. fst item = source) (queue c)
       \<and> (\<exists>d. calls (producer_round read NOW_ID c) = calls c @ [Sleep d])"
proof -
  let ?f = "producer_source read NOW_ID"
  obtain d1 c1 where mid: "fold ?f pre (False, c) = (d1, c1)"
    by (cases "fold ?f pre (False, c)")
  from keys snapshot have nb: "source \<notin> fst ` set pre" and na: "source \<notin> fst ` set post"
    by auto
  have step: "?f (source, last_id) (d1, c1) = (d1, c1\<lparr>logger := logger c1 @ [Error_reading source]\<rparr>)"
    using raises by (simp add: producer_source_raises)
  have whole: "fold ?f (progress c) (False, c)
      = fold ?f post (d1, c1\<lparr>logger := logger c1 @ [Error_reading source]\<rparr>)"
    by (simp add: snapshot mid step)
  have b: "map_of (progress c1) source = map_of (progress c) source
      \<and> filter (\<lambda>item. fst item = source) (queue c1) = filter (\<lambda>item. fst item = source) (queue c)"
    using fold_producer_source_other [OF nb, of read NOW_ID "(False, c)"] by (simp add: mid)
  have a: "map_of (progress (snd (fold ?f (progress c) (False, c)))) source = map_of (progress c1) source
      \<and> filter (\<lambda>item. fst item = source) (queue (snd (fold ?f (progress c) (False, c))))
          = filter (\<lambda>item. fst item = source) (queue c1)"
    using fold_producer_source_other [OF na, of read NOW_ID
        "(d1, c1\<lparr>logger := logger c1 @ [Error_reading source]\<rparr>)"]
    by (simp add: whole)
  have here: "map_of (progress c) source = Some last_id"
    using nb by (simp add: snapshot map_add_def map_of_eq_None_iff [THEN iffD2] split: option.splits)
  show ?thesis
    using whole a b here producer_round_calls [of read NOW_ID c]
    by (simp add: mid producer_round_progress producer_round_queue)
qed

theorem producer_read_error_contained_witness:
  "map_of (progress (producer_round one_failing 100
       (started [(''A'', Some 0), (''B'', Some 0), (''C'', Some 3)] ()))) ''B'' = Some (Some 0)
   \<and> queue (producer_round one_failing 100
       (started [(''A'', Some 0), (''B'', Some 0), (''C'', Some 3)] ()))
     = [(''A'', None, 100), (''C'', Some [\<lparr>event_id = 9, content = ''hello''\<rparr>], 9)]
   \<and> progress (producer_round one_failing 100
       (started [(''A'', Some 0), (''B'', Some 0), (''C'', Some 3)] ()))
     = [(''A'', Some 100), (''B'', Some 0), (''C'', Some 9)]"
proof -
  have raises: "one_failing ''B'' (Some 0) = Inl (Exception ''connection reset'')"
    by (simp add: one_failing_def)
  have snapshot: "progress (started [(''A'', Some 0), (''B'', Some 0), (''C'', Some 3)] ())
      = [(''A'', Some 0)] @ (''B'', Some 0) # [(''C'', Some 3)]"
    by (simp add: started_def)
  have keys: "distinct (map fst (progress (started [(''A'', Some 0), (''B'', Some 0), (''C'', Some 3)] ())))"
    by (simp add: started_def)
  have kept: "map_of (progress (producer_round one_failing 100
       (started [(''A'', Some 0), (''B'', Some 0), (''C'', Some 3)] ()))) ''B'' = Some (Some 0)"
    by (rule producer_read_error_contained
          [where read = one_failing and source = "''B''" and last_id = "Some 0"
          and pre = "[(''A'', Some 0)]" and post = "[(''C'', Some 3)]" and NOW_ID = 100
          and c = "started [(''A'', Some 0), (''B'', Some 0), (''C'', Some 3)] ()",
          OF raises snapshot keys, THEN conjunct2, THEN conjunct1])
  have round: "producer_round one_failing 100 (started [(''A'', Some 0), (''B'', Some 0), (''C'', Some 3)] ())
     = \<lparr>progress = [(''A'', Some 100), (''B'', Some 0), (''C'', Some 9)],
        queue = [(''A'', None, 100), (''C'', Some [\<lparr>event_id = 9, content = ''hello''\<rparr>], 9)],
        sql = (), logger = [Error_reading ''B'', All_exhausted],
        calls = [Sleep Empty_source_delay]\<rparr>"
    by (simp add: producer_round_def producer_source_def one_failing_def started_def get_last_id_def)
  show ?thesis
    using kept by (simp add: round)
qed

text \<open>
  C9: \<open>get_last_id\<close> raises \<open>ValueError\<close> on an empty collection and returns the
  greatest id of a collection that is not empty. Neither \<open>HistoryCrawler.read\<close> nor
  \<open>AuditLogCrawler.read\<close> ever returns an empty list (they return \<open>None\<close> for it), and
  that alone keeps the producer from the failure: when a read hook does return an empty
  list, the computation of the cursor raises, the handler of the round catches and logs
  it, and the dictionary and the queue are left as they were.
\<close>

theorem get_last_id_empty_page:
  "get_last_id [] = Inl ValueError
   \<and> (objects \<noteq> [] \<longrightarrow>
        (\<exists>m. get_last_id objects = Inr m \<and> m \<in> event_id ` set objects
             \<and> (\<forall>x\<in>set objects. event_id x \<le> m)))
   \<and> HistoryCrawler_read history channel cursor \<noteq> Inr (Some [])
   \<and> AuditLogCrawler_read audit_logs guild cursor \<noteq> Inr (Some [])
   \<and> (read source last_id = Inr (Some []) \<longrightarrow>
        producer_source read NOW_ID (source, last_id) (flag, c)
          = (flag, c\<lparr>logger := logger c @ [Error_reading source]\<rparr>))"
proof -
  have 1: "get_last_id [] = Inl ValueError" by (simp add: get_last_id_def)
  have 2: "objects \<noteq> [] \<longrightarrow>
        (\<exists>m. get_last_id objects = Inr m \<and> m \<in> event_id ` set objects
             \<and> (\<forall>x\<in>set objects. event_id x \<le> m))"
    using get_last_id_Inr [of objects] by (simp add: get_last_id_Max)
  have 3: "HistoryCrawler_read history channel cursor \<noteq> Inr (Some [])"
    by (simp add: HistoryCrawler_read_def split: sum.splits)
  have 4: "AuditLogCrawler_read audit_logs guild cursor \<noteq> Inr (Some [])"
    by (simp add: AuditLogCrawler_read_def split: sum.splits)
  have 5: "read source last_id = Inr (Some []) \<longrightarrow>
        producer_source read NOW_ID (source, last_id) (flag, c)
          = (flag, c\<lparr>logger := logger c @ [Error_reading source]\<rparr>)"
    by (simp add: producer_source_def 1)
  from 1 2 3 4 5 show ?thesis by blast
qed

theorem get_last_id_empty_page_witness:
  "get_last_id [\<lparr>event_id = 3, content = ''a''\<rparr>, \<lparr>event_id = 7, content = ''b''\<rparr>, \<lparr>event_id = 5, content = ''c''\<rparr>] = Inr 7
   \<and> empty_page ''A'' (Some 0) = Inr (Some [])
   \<and> producer_round empty_page 100 (started [(''A'', Some 0)] ())
       = \<lparr>progress = [(''A'', Some 0)], queue = [], sql = (),
          logger = [Error_reading ''A''], calls = [Sleep Yield_delay]\<rparr>"
proof -
  have page: "empty_page ''A'' (Some 0) = Inr (Some [])"
    by (simp add: empty_page_def)
  have step: "producer_source empty_page 100 (''A'', Some 0) (False, started [(''A'', Some 0)] ())
      = (False, started [(''A'', Some 0)] ()
           \<lparr>logger := logger (started [(''A'', Some 0)] ()) @ [Error_reading ''A'']\<rparr>)"
    by (rule get_last_id_empty_page
        [where read = empty_page and source = "''A''" and last_id = "Some 0"
        and NOW_ID = 100 and flag = False and c = "started [(''A'', Some 0)] ()",
        THEN conjunct2, THEN conjunct2, THEN conjunct2, THEN conjunct2, THEN mp]) (rule page)
  have seeded: "progress (started [(''A'', Some 0)] ()) = [(''A'', Some 0)]"
    by (simp add: started_def)
  have greatest: "get_last_id [\<lparr>event_id = 3, content = ''a''\<rparr>, \<lparr>event_id = 7, content = ''b''\<rparr>, \<lparr>event_id = 5, content = ''c''\<rparr>] = Inr 7"
    by (simp add: get_last_id_def)
  have round: "producer_round empty_page 100 (started [(''A'', Some 0)] ())
       = \<lparr>progress = [(''A'', Some 0)], queue = [], sql = (),
          logger = [Error_reading ''A''], calls = [Sleep Yield_delay]\<rparr>"
    by (simp add: producer_round_def seeded step) (simp add: started_def)
  show ?thesis
    using page greatest round by simp
qed

section \<open>Properties of the two crawlers\<close>

text \<open>
  C5, on the code: the creation hook, for an eligible channel that is not tracked, stores
  \<open>None\<close> in the dictionary, not the cursor \<open>0\<close> (the store does get a row with
  \<open>0\<close>; \<open>init\<close>, for the same channel with no record in the store, puts \<open>0\<close> in
  both); and the update hook returns at once when the channel was not eligible before, so
  a channel that becomes eligible is not added at all.
\<close>

theorem channel_hooks_new_channel:
  "progress (channel_create_hook [1] \<lparr>chan_id = 7, guild_id = 1, read_message_history = True\<rparr>
       (started [] []))
     = [(Channel_key 7, None)]
   \<and> sql (channel_create_hook [1] \<lparr>chan_id = 7, guild_id = 1, read_message_history = True\<rparr>
       (started [] []))
     = [(''insert_channel_crawl'', [Trans, Source (Channel_key 7), Number 0])]
   \<and> progress (init_channel Map.empty \<lparr>chan_id = 7, guild_id = 1, read_message_history = True\<rparr>
       (started [] []))
     = [(Channel_key 7, Some 0)]
   \<and> channel_update_hook [1] \<lparr>chan_id = 7, guild_id = 1, read_message_history = False\<rparr>
        \<lparr>chan_id = 7, guild_id = 1, read_message_history = True\<rparr> (started [] [])
     = started [] []"
  by (simp add: channel_create_hook_def channel_update_hook_def channel_ok_def
      create_progress_def init_channel_def started_def)

theorem channel_hooks_new_channel_witness:
  "map_of (progress (channel_create_hook [1]
       \<lparr>chan_id = 7, guild_id = 1, read_message_history = True\<rparr> (started [] [])))
     (Channel_key 7) = Some None"
  using channel_hooks_new_channel by simp

text \<open>
  C6, on the code: for a page of two entries \<open>AuditLogCrawler.write\<close> calls
  \<open>insert_audit_log_entry\<close> twice, each time with the entry alone; the transaction it
  was given is passed to neither call, where \<open>AuditLogCrawler.update\<close> passes it on.
\<close>

theorem audit_log_write_ignores_transaction:
  "AuditLogCrawler_write [\<lparr>event_id = 1, content = ''ban''\<rparr>, \<lparr>event_id = 2, content = ''kick''\<rparr>]
     = [(''insert_audit_log_entry'', [Event \<lparr>event_id = 1, content = ''ban''\<rparr>]),
        (''insert_audit_log_entry'', [Event \<lparr>event_id = 2, content = ''kick''\<rparr>])]
   \<and> AuditLogCrawler_update ''guild'' 2
     = [(''update_audit_log_crawl'', [Trans, Source ''guild'', Number 2])]"
  by (simp add: AuditLogCrawler_write_def AuditLogCrawler_update_def)

section \<open>The persisted cursor\<close>

text \<open>
  C2, on the code: the cursor persisted for a source does decrease. \<open>NOW_ID\<close>, the
  mark of a source drained up to now, is computed once, when the module is imported;
  here it is \<open>100\<close>. The source \<open>A\<close>, seeded with the cursor \<open>0\<close>, has one event,
  created after the import, of id \<open>150\<close>, and every read returns only what lies after
  the cursor it is given. The first round reads the event and queues the cursor \<open>150\<close>;
  the second reads nothing after \<open>150\<close> and queues \<open>NOW_ID\<close>; the third reads the
  same event again after \<open>100\<close>; and so on. The consumer commits every item: the store
  is given \<open>150\<close>, then \<open>100\<close>, then \<open>150\<close>, then \<open>100\<close>, and the page is
  written twice.
\<close>

theorem persisted_cursor_regression:
  "persisted ''A'' (calls (consumer accept_write set_cursor
      (producer [one_late_event, one_late_event] 100 (started [(''A'', Some 0)] [(''A'', 0)]))))
     = [150, 100]
   \<and> sql (consumer accept_write set_cursor
      (producer [one_late_event, one_late_event] 100 (started [(''A'', Some 0)] [(''A'', 0)])))
     = [(''A'', 100)]
   \<and> persisted ''A'' (calls (consumer accept_write set_cursor
      (producer [one_late_event, one_late_event, one_late_event, one_late_event] 100
         (started [(''A'', Some 0)] [(''A'', 0)]))))
     = [150, 100, 150, 100]
   \<and> \<not> sorted (persisted ''A'' (calls (consumer accept_write set_cursor
      (producer [one_late_event, one_late_event, one_late_event, one_late_event] 100
         (started [(''A'', Some 0)] [(''A'', 0)])))))
   \<and> count_list (calls (consumer accept_write set_cursor
      (producer [one_late_event, one_late_event, one_late_event, one_late_event] 100
         (started [(''A'', Some 0)] [(''A'', 0)]))))
       (Write [\<lparr>event_id = 150, content = ''late''\<rparr>]) = 2"
  by (simp add: persisted_def consumer_def consumer_item_def producer_def producer_round_def
      producer_source_def one_late_event_def started_def get_last_id_def accept_write_def
      set_cursor_def)

text \<open>
  The rest of this section shows where the decrease comes from: as long as no event id
  exceeds \<open>NOW_ID\<close>, the persisted cursors of a source are in ascending order.
\<close>

lemma cursor_inv_cong:
  "progress c' = progress c \<Longrightarrow> queue c' = queue c \<Longrightarrow>
   cursor_inv NOW_ID low source c' = cursor_inv NOW_ID low source c"
  by (simp add: cursor_inv_def)

lemma enqueued_Nil: "enqueued source [] = []"
  by (simp add: enqueued_def)

lemma enqueued_Cons:
  "enqueued source ((s, events, l) # items)
     = (if s = source then l # enqueued source items else enqueued source items)"
  by (simp add: enqueued_def)

lemma enqueued_append:
  "enqueued source (xs @ ys) = enqueued source xs @ enqueued source ys"
  by (simp add: enqueued_def)

lemma cursor_inv_put:
  assumes inv: "cursor_inv NOW_ID low source c"
    and live: "map_of (progress c) source = Some (Some n)"
    and le: "n \<le> m" "m \<le> NOW_ID"
  shows "cursor_inv NOW_ID low source
           (c\<lparr>queue := queue c @ [(source, events, m)],
              progress := AList.update source (Some m) (progress c)\<rparr>)"
proof -
  from inv live have low: "low \<le> n"
    and srt: "sorted (enqueued source (queue c))"
    and bnd: "\<forall>l\<in>set (enqueued source (queue c)). low \<le> l \<and> l \<le> n"
    and dist: "distinct (map fst (progress c))"
    by (auto simp: cursor_inv_def)
  have q: "enqueued source (queue c @ [(source, events, m)]) = enqueued source (queue c) @ [m]"
    by (simp add: enqueued_append enqueued_Cons enqueued_Nil)
  have look: "map_of (AList.update source (Some m) (progress c)) source = Some (Some m)"
    by (simp add: update_conv')
  have srt': "sorted (enqueued source (queue c) @ [m])"
    using srt bnd le by (fastforce simp: sorted_append)
  have bnd': "\<forall>l\<in>set (enqueued source (queue c) @ [m]). low \<le> l \<and> l \<le> m"
    using bnd le low by fastforce
  have "low \<le> m" using low le by simp
  then show ?thesis
    unfolding cursor_inv_def using srt' bnd' look le(2) distinct_update [OF dist]
    by (simp add: q)
qed

lemma producer_source_distinct:
  "distinct (map fst (progress (snd dc))) \<Longrightarrow>
   distinct (map fst (progress (snd (producer_source read NOW_ID p dc))))"
  by (cases p; cases dc)
     (simp add: producer_source_def distinct_update split: sum.splits option.splits)

lemma cursor_inv_eq:
  "distinct (map fst (progress c')) \<Longrightarrow>
   map_of (progress c') source = map_of (progress c) source \<Longrightarrow>
   enqueued source (queue c') = enqueued source (queue c) \<Longrightarrow>
   cursor_inv NOW_ID low source c \<Longrightarrow> cursor_inv NOW_ID low source c'"
  unfolding cursor_inv_def by (simp del: map_of_eq_Some_iff)

lemma cursor_inv_other:
  assumes "s \<noteq> source" and "cursor_inv NOW_ID low source (snd dc)"
  shows "cursor_inv NOW_ID low source (snd (producer_source read NOW_ID (s, l) dc))"
proof -
  from producer_source_other [OF assms(1), of read NOW_ID l dc]
  have look: "map_of (progress (snd (producer_source read NOW_ID (s, l) dc))) source
      = map_of (progress (snd dc)) source"
    and q: "enqueued source (queue (snd (producer_source read NOW_ID (s, l) dc)))
      = enqueued source (queue (snd dc))"
    by (simp_all add: enqueued_def)
  from assms(2) have "distinct (map fst (progress (snd dc)))"
    unfolding cursor_inv_def by (rule conjunct1)
  from producer_source_distinct [OF this, of read NOW_ID "(s, l)"]
  show ?thesis
    by (rule cursor_inv_eq [OF _ look q assms(2)])
qed

lemma cursor_inv_same:
  assumes inv: "cursor_inv NOW_ID low source c"
    and live: "map_of (progress c) source = Some last_id"
    and contract: "\<forall>s cur evs. read s (Some cur) = Inr (Some evs) \<longrightarrow>
        (\<forall>e\<in>set evs. cur < event_id e \<and> event_id e \<le> NOW_ID)"
  shows "cursor_inv NOW_ID low source (snd (producer_source read NOW_ID (source, last_id) (flag, c)))"
proof -
  from inv obtain n where "map_of (progress c) source = Some (Some n)" "n \<le> NOW_ID"
    unfolding cursor_inv_def by blast
  with live have n: "last_id = Some n" "n \<le> NOW_ID"
    by simp_all
  from live n have look: "map_of (progress c) source = Some (Some n)"
    by simp
  have logged: "cursor_inv NOW_ID low source (c\<lparr>logger := logger c @ [Error_reading source]\<rparr>)"
    by (rule cursor_inv_cong [THEN iffD2, OF _ _ inv]) simp_all
  show ?thesis
  proof (cases "read source last_id")
    case (Inl e)
    then show ?thesis
      using logged by (simp add: producer_source_def)
  next
    case (Inr page)
    show ?thesis
    proof (cases page)
      case None
      from cursor_inv_put [OF inv look n(2), of None] show ?thesis
        using Inr None by (simp add: producer_source_def)
    next
      case (Some evs)
      show ?thesis
      proof (cases "get_last_id evs")
        case (Inl e)
        then show ?thesis
          using Inr Some logged by (simp add: producer_source_def)
      next
        case new: (Inr m)
        from get_last_id_Inr [OF new] obtain e where "e \<in> set evs" "m = event_id e"
          by auto
        moreover have "read source (Some n) = Inr (Some evs)"
          using Inr Some n(1) by simp
        with contract have "\<forall>e\<in>set evs. n < event_id e \<and> event_id e \<le> NOW_ID"
          by blast
        ultimately have m: "n \<le> m" "m \<le> NOW_ID"
          by auto
        from cursor_inv_put [OF inv look m, of "Some evs"] show ?thesis
          using Inr Some new by (simp add: producer_source_def)
      qed
    qed
  qed
qed

lemma cursor_inv_fold:
  assumes contract: "\<forall>s cur evs. read s (Some cur) = Inr (Some evs) \<longrightarrow>
        (\<forall>e\<in>set evs. cur < event_id e \<and> event_id e \<le> NOW_ID)"
  shows "distinct (map fst ps) \<Longrightarrow> cursor_inv NOW_ID low source (snd dc) \<Longrightarrow>
     (\<forall>cur. (source, cur) \<in> set ps \<longrightarrow> map_of (progress (snd dc)) source = Some cur) \<Longrightarrow>
     cursor_inv NOW_ID low source (snd (fold (producer_source read NOW_ID) ps dc))"
proof (induction ps arbitrary: dc)
  case Nil
  then show ?case by simp
next
  case (Cons p ps)
  obtain s l where p: "p = (s, l)" by (cases p)
  obtain flag c where dc: "dc = (flag, c)" by (cases dc)
  let ?dc' = "producer_source read NOW_ID (s, l) dc"
  from Cons.prems(1) have dps: "distinct (map fst ps)" and fresh: "s \<notin> fst ` set ps"
    by (auto simp: p)
  have inv': "cursor_inv NOW_ID low source (snd ?dc')"
  proof (cases "s = source")
    case True
    with Cons.prems(3) have "map_of (progress c) source = Some l"
      by (simp add: p dc)
    from cursor_inv_same [OF _ this contract, of low flag] Cons.prems(2)
    show ?thesis by (simp add: True dc)
  next
    case False
    from cursor_inv_other [OF False Cons.prems(2)] show ?thesis .
  qed
  have live': "\<forall>cur. (source, cur) \<in> set ps \<longrightarrow> map_of (progress (snd ?dc')) source = Some cur"
  proof (cases "s = source")
    case True
    with fresh show ?thesis by force
  next
    case False
    from producer_source_other [OF False, of read NOW_ID l dc] Cons.prems(3)
    show ?thesis by (simp add: p)
  qed
  from Cons.IH [OF dps inv' live'] show ?case by (simp add: p)
qed

lemma cursor_inv_round:
  assumes contract: "\<forall>s cur evs. read s (Some cur) = Inr (Some evs) \<longrightarrow>
        (\<forall>e\<in>set evs. cur < event_id e \<and> event_id e \<le> NOW_ID)"
    and inv: "cursor_inv NOW_ID low source c"
  shows "cursor_inv NOW_ID low source (producer_round read NOW_ID c)"
proof -
  from inv have dist: "distinct (map fst (progress c))"
    by (simp add: cursor_inv_def)
  then have live: "\<forall>cur. (source, cur) \<in> set (progress c) \<longrightarrow>
      map_of (progress (snd (False, c))) source = Some cur"
    by simp
  have "cursor_inv NOW_ID low source (snd (fold (producer_source read NOW_ID) (progress c) (False, c)))"
    using cursor_inv_fold [OF contract dist _ live, of low] inv by simp
  then show ?thesis
    by (simp add: cursor_inv_cong [OF producer_round_progress producer_round_queue])
qed

lemma cursor_inv_producer:
  "\<forall>read\<in>set reads. \<forall>s cur evs. read s (Some cur) = Inr (Some evs) \<longrightarrow>
        (\<forall>e\<in>set evs. cur < event_id e \<and> event_id e \<le> NOW_ID) \<Longrightarrow>
   cursor_inv NOW_ID low source c \<Longrightarrow>
   cursor_inv NOW_ID low source (producer reads NOW_ID c)"
proof (induction reads arbitrary: c)
  case Nil
  then show ?case by (simp add: producer_def)
next
  case (Cons read reads)
  from Cons.prems(1) have here: "\<forall>s cur evs. read s (Some cur) = Inr (Some evs) \<longrightarrow>
        (\<forall>e\<in>set evs. cur < event_id e \<and> event_id e \<le> NOW_ID)"
    and later: "\<forall>read\<in>set reads. \<forall>s cur evs. read s (Some cur) = Inr (Some evs) \<longrightarrow>
        (\<forall>e\<in>set evs. cur < event_id e \<and> event_id e \<le> NOW_ID)"
    by simp_all
  from Cons.IH [OF later cursor_inv_round [OF here Cons.prems(2)]]
  show ?case by (simp add: producer_def)
qed

text \<open>A source that the dictionary does not hold is never queued.\<close>

lemma untracked_round:
  assumes "source \<notin> fst ` set (progress c)"
  shows "source \<notin> fst ` set (progress (producer_round read NOW_ID c))
       \<and> enqueued source (queue (producer_round read NOW_ID c)) = enqueued source (queue c)"
proof -
  from fold_producer_source_other [OF assms, of read NOW_ID "(False, c)"] assms
  have "map_of (progress (producer_round read NOW_ID c)) source = None
      \<and> filter (\<lambda>item. fst item = source) (queue (producer_round read NOW_ID c))
          = filter (\<lambda>item. fst item = source) (queue c)"
    by (simp add: producer_round_progress producer_round_queue map_of_eq_None_iff)
  then show ?thesis
    by (simp add: enqueued_def map_of_eq_None_iff)
qed

lemma untracked_producer:
  "source \<notin> fst ` set (progress c) \<Longrightarrow>
   enqueued source (queue (producer reads NOW_ID c)) = enqueued source (queue c)"
proof (induction reads arbitrary: c)
  case Nil
  then show ?case by (simp add: producer_def)
next
  case (Cons read reads)
  from untracked_round [OF Cons.prems, of read NOW_ID]
  have "source \<notin> fst ` set (progress (producer_round read NOW_ID c))"
    and "enqueued source (queue (producer_round read NOW_ID c)) = enqueued source (queue c)"
    by simp_all
  with Cons.IH [of "producer_round read NOW_ID c"] show ?case
    by (simp add: producer_def)
qed

text \<open>The producer calls nothing but \<open>sleep\<close>.\<close>

lemma committed_producer_round:
  "fold (committed source) (calls (producer_round read NOW_ID c)) st
     = fold (committed source) (calls c) st"
proof -
  obtain d where "calls (producer_round read NOW_ID c) = calls c @ [Sleep d]"
    using producer_round_calls by blast
  then show ?thesis
    by (cases "fold (committed source) (calls c) st") simp
qed

lemma committed_producer:
  "fold (committed source) (calls (producer reads NOW_ID c)) st
     = fold (committed source) (calls c) st"
  by (induction reads arbitrary: c) (simp_all add: producer_def committed_producer_round)

text \<open>
  A turn of the consumer persists at most the cursor of its item, so what the consumer
  persists for a source is taken, in order, from what the queue holds for it.
\<close>

lemma consumer_item_persisted:
  "\<exists>X. snd (fold (committed source) (calls (consumer_item write update (s, events, l) c)) st)
        = snd (fold (committed source) (calls c) st) @ X
      \<and> (X = [] \<or> (X = [l] \<and> s = source))"
  by (cases "fold (committed source) (calls c) st")
     (simp add: consumer_item_calls split: option.splits sum.splits)

lemma consumer_loop_persisted:
  "sorted (snd (fold (committed source) (calls c) st) @ enqueued source items) \<Longrightarrow>
   sorted (snd (fold (committed source) (calls (consumer_loop write update items c)) st))
   \<and> set (snd (fold (committed source) (calls (consumer_loop write update items c)) st))
       \<subseteq> set (snd (fold (committed source) (calls c) st)) \<union> set (enqueued source items)"
proof (induction items arbitrary: c)
  case Nil
  then show ?case by (simp add: enqueued_Nil)
next
  case (Cons item rest)
  obtain s events l where item: "item = (s, events, l)" by (cases item)
  let ?c' = "consumer_item write update (s, events, l) (c\<lparr>queue := rest\<rparr>)"
  let ?P0 = "snd (fold (committed source) (calls c) st)"
  obtain X where X: "snd (fold (committed source) (calls ?c') st) = ?P0 @ X"
    and shape: "X = [] \<or> (X = [l] \<and> s = source)"
    using consumer_item_persisted [of source "write" update s events l "c\<lparr>queue := rest\<rparr>" st]
    by auto
  have srt: "sorted (snd (fold (committed source) (calls ?c') st) @ enqueued source rest)"
    using Cons.prems shape by (auto simp: X item enqueued_Cons sorted_append split: if_splits)
  have sub: "set (?P0 @ X) \<union> set (enqueued source rest)
      \<subseteq> set ?P0 \<union> set (enqueued source (item # rest))"
    using shape by (auto simp: item enqueued_Cons)
  from Cons.IH [OF srt] sub show ?case
    by (simp add: item X) blast
qed

text \<open>
  Let every read return only events whose ids are above the cursor it was given and not
  above \<open>NOW_ID\<close>, and let the dictionary be seeded with int cursors not above
  \<open>NOW_ID\<close>. Then, for every source, any rounds of the producer and any hooks
  \<open>write\<close> and \<open>update\<close> (failing or not), the cursors the consumer persists for the
  source, in the order of the commits, never decrease, and none is below the cursor the
  source was seeded with. The bound on the ids holds of the events older than the import
  of the module only; the theorem above shows what happens beyond it.
\<close>

lemma persisted_cursors_ascending_up_to_NOW_ID:
  assumes contract: "\<forall>read\<in>set reads. \<forall>s cur evs. read s (Some cur) = Inr (Some evs) \<longrightarrow>
        (\<forall>e\<in>set evs. cur < event_id e \<and> event_id e \<le> NOW_ID)"
    and seeded: "\<forall>(s, cur)\<in>set seeded. \<exists>n. cur = Some n \<and> n \<le> NOW_ID"
    and keys: "distinct (map fst seeded)"
  shows "sorted (persisted source (calls (consumer write update
            (producer reads NOW_ID (started seeded db)))))
       \<and> (\<forall>n. map_of seeded source = Some (Some n) \<longrightarrow>
            (\<forall>l\<in>set (persisted source (calls (consumer write update
                (producer reads NOW_ID (started seeded db))))). n \<le> l))"
proof -
  let ?c = "producer reads NOW_ID (started seeded db)"
  let ?P = "persisted source (calls (consumer write update ?c))"
  have none: "snd (fold (committed source) (calls ?c) ([], [])) = []"
    by (simp add: committed_producer started_def)
  have enq: "sorted (enqueued source (queue ?c))
      \<and> (\<forall>n. map_of seeded source = Some (Some n) \<longrightarrow>
            (\<forall>l\<in>set (enqueued source (queue ?c)). n \<le> l))"
  proof (cases "source \<in> fst ` set seeded")
    case True
    then obtain cur where mem: "(source, cur) \<in> set seeded" by auto
    with seeded obtain n0 where n0: "cur = Some n0" "n0 \<le> NOW_ID" by auto
    from mem keys have look: "map_of seeded source = Some (Some n0)"
      by (simp add: n0)
    have "cursor_inv NOW_ID n0 source (started seeded db)"
      using look keys n0 by (simp add: cursor_inv_def started_def enqueued_Nil)
    from cursor_inv_producer [OF contract this] look show ?thesis
      by (auto simp: cursor_inv_def)
  next
    case False
    then have "enqueued source (queue ?c) = []"
      using untracked_producer [of source "started seeded db" reads NOW_ID]
      by (simp add: started_def enqueued_Nil)
    then show ?thesis by simp
  qed
  from consumer_loop_persisted [of source "?c" "([], [])" "queue ?c" "write" update] enq
  have "sorted ?P \<and> set ?P \<subseteq> set (enqueued source (queue ?c))"
    by (simp add: none persisted_def consumer_def)
  with enq show ?thesis by blast
qed

lemma persisted_cursors_ascending_example:
  "persisted ''A'' (calls (consumer accept_write set_cursor
      (producer [one_early_event, one_early_event] 100 (started [(''A'', Some 0)] [(''A'', 0)]))))
     = [50, 100]
   \<and> sorted (persisted ''A'' (calls (consumer accept_write set_cursor
      (producer [one_early_event, one_early_event] 100 (started [(''A'', Some 0)] [(''A'', 0)])))))"
proof -
  have contract: "\<forall>read\<in>set [one_early_event, one_early_event]. \<forall>s cur evs.
      read s (Some cur) = Inr (Some evs) \<longrightarrow> (\<forall>e\<in>set evs. cur < event_id e \<and> event_id e \<le> 100)"
    by (auto simp: one_early_event_def split: if_splits)
  have seeded: "\<forall>(s, cur)\<in>set [(''A'', Some (0::int))]. \<exists>n. cur = Some n \<and> n \<le> 100"
    by simp
  have keys: "distinct (map fst [(''A'', Some (0::int))])"
    by simp
  have ordered: "sorted (persisted ''A'' (calls (consumer accept_write set_cursor
      (producer [one_early_event, one_early_event] 100 (started [(''A'', Some 0)] [(''A'', 0)])))))"
    by (rule persisted_cursors_ascending_up_to_NOW_ID [OF contract seeded keys, THEN conjunct1])
  have cursors: "persisted ''A'' (calls (consumer accept_write set_cursor
      (producer [one_early_event, one_early_event] 100 (started [(''A'', Some 0)] [(''A'', 0)]))))
     = [50, 100]"
    by (simp add: persisted_def consumer_def consumer_item_def producer_def producer_round_def
        producer_source_def one_early_event_def started_def get_last_id_def accept_write_def
        set_cursor_def)
  show ?thesis
    by (rule conjI [OF cursors ordered])
qed

end
